theory Spec2Isabelle
  imports Main "HOL-Library.Multiset"
begin

section \<open>Data model\<close>

text \<open>
  The record store is the Prisma client of the API. Identifiers are strings (cuid values),
  timestamps are natural numbers (milliseconds of a clock that the caller reads once per
  service call and passes as \<open>now\<close>, standing for \<^verbatim>\<open>new Date()\<close> and the store's
  \<^verbatim>\<open>now()\<close> defaults).
\<close>

type_synonym ident = string
type_synonym timestamp = nat

text \<open>
  Modelled from the spec: the Prisma schema that declares the MobileMessage, Attendee and
  Invite tables is not part of the sources. Section 3 of the specification gives a message
  the delivery states \<open>delivered\<close> and \<open>queued\<close>, a nullable delivered-at timestamp that is
  set only when the message becomes delivered, and a recipient reference made of the two
  nullable columns attendeeId and inviteId. The columns below are those the services read
  and write.
\<close>

datatype delivery = Delivered | Queued

text \<open>The JSON value of the attachments column: the empty object \<^verbatim>\<open>{}\<close> or a list of files.\<close>

datatype attachments = EmptyObject | FileList "string list"

record attendee =
  att_id :: ident
  att_eventId :: ident
  att_email :: string
  att_acceptedAt :: "timestamp option"

record invite =
  inv_id :: ident
  inv_eventId :: ident
  inv_email :: string
  inv_status :: string

record message =
  msg_id :: ident
  eventId :: ident
  attendeeId :: "ident option"
  inviteId :: "ident option"
  title :: string
  body :: string
  attachments :: attachments
  status :: string
  deliveryStatus :: delivery
  unread :: bool
  deliveredAt :: "timestamp option"
  createdAt :: timestamp
  updatedAt :: timestamp

record broadcast =
  bc_id :: ident
  bc_eventId :: ident
  bc_title :: string
  bc_bodyHtml :: string
  bc_status :: string
  bc_sentAt :: "timestamp option"

record store =
  attendees :: "attendee list"
  invites :: "invite list"
  mobileMessages :: "message list"
  broadcasts :: "broadcast list"
  nextId :: nat

text \<open>
  What the absent schema fixes and the services rely on is a parameter: the generator of
  fresh identifiers (\<^verbatim>\<open>@default(cuid())\<close>), the value of deliveryStatus when a create
  call leaves it out, and whether updatedAt is refreshed by every write
  (\<^verbatim>\<open>@updatedAt\<close>).
\<close>

record schema =
  newId :: "nat \<Rightarrow> ident"
  default_deliveryStatus :: delivery
  auto_updatedAt :: bool

datatype error = NotFoundException string

section \<open>The record store's operations\<close>

text \<open>The \<^verbatim>\<open>data\<close> argument of \<^verbatim>\<open>prisma.mobileMessage.create\<close>; an omitted
  column is \<open>None\<close>.\<close>

record create_data =
  c_eventId :: ident
  c_attendeeId :: "ident option"
  c_inviteId :: "ident option"
  c_title :: string
  c_body :: string
  c_attachments :: attachments
  c_status :: string
  c_deliveryStatus :: "delivery option"
  c_unread :: bool
  c_deliveredAt :: "timestamp option"

definition mobileMessage_create ::
  "schema \<Rightarrow> timestamp \<Rightarrow> create_data \<Rightarrow> store \<Rightarrow> message \<times> store" where
  "mobileMessage_create sch now d s =
     (let m = \<lparr> msg_id = newId sch (nextId s),
                 eventId = c_eventId d,
                 attendeeId = c_attendeeId d,
                 inviteId = c_inviteId d,
                 title = c_title d,
                 body = c_body d,
                 attachments = c_attachments d,
                 status = c_status d,
                 deliveryStatus =
                   (case c_deliveryStatus d of
                      None \<Rightarrow> default_deliveryStatus sch
                    | Some x \<Rightarrow> x),
                 unread = c_unread d,
                 deliveredAt = c_deliveredAt d,
                 createdAt = now,
                 updatedAt = now \<rparr>
      in (m, s\<lparr> mobileMessages := mobileMessages s @ [m], nextId := Suc (nextId s) \<rparr>))"

text \<open>
  \<^verbatim>\<open>Promise.all(xs.map(async x => prisma.mobileMessage.create(...)))\<close>: one record per
  element; the resulting array follows the order of \<open>xs\<close>. The creations are run here in
  that order.
\<close>

fun createAll :: "schema \<Rightarrow> timestamp \<Rightarrow> create_data list \<Rightarrow> store \<Rightarrow> message list \<times> store" where
  "createAll sch now [] s = ([], s)"
| "createAll sch now (d # ds) s =
     (case mobileMessage_create sch now d s of
        (m, s1) \<Rightarrow> (case createAll sch now ds s1 of (ms, s2) \<Rightarrow> (m # ms, s2)))"

text \<open>\<^verbatim>\<open>orderBy: { createdAt: 'desc' }\<close>; the order among equal timestamps is the store's.\<close>

definition orderBy_createdAt_desc :: "message list \<Rightarrow> message list" where
  "orderBy_createdAt_desc ms = rev (sort_key createdAt ms)"

definition findMany_messages :: "(message \<Rightarrow> bool) \<Rightarrow> store \<Rightarrow> message list" where
  "findMany_messages P s = filter P (mobileMessages s)"

definition findFirst_message :: "(message \<Rightarrow> bool) \<Rightarrow> store \<Rightarrow> message option" where
  "findFirst_message P s = find P (mobileMessages s)"

definition touch :: "schema \<Rightarrow> timestamp \<Rightarrow> message \<Rightarrow> message" where
  "touch sch now m = (if auto_updatedAt sch then m\<lparr> updatedAt := now \<rparr> else m)"

text \<open>\<^verbatim>\<open>updateMany({ where, data })\<close> returns the number of rows it changed.\<close>

definition mobileMessage_updateMany ::
  "schema \<Rightarrow> timestamp \<Rightarrow> (message \<Rightarrow> bool) \<Rightarrow> (message \<Rightarrow> message) \<Rightarrow> store \<Rightarrow> nat \<times> store" where
  "mobileMessage_updateMany sch now P f s =
     (length (filter P (mobileMessages s)),
      s\<lparr> mobileMessages := map (\<lambda>m. if P m then touch sch now (f m) else m) (mobileMessages s) \<rparr>)"

text \<open>\<^verbatim>\<open>update({ where: { id }, data })\<close>: the row whose primary key is \<open>i\<close>.\<close>

definition mobileMessage_update ::
  "schema \<Rightarrow> timestamp \<Rightarrow> ident \<Rightarrow> (message \<Rightarrow> message) \<Rightarrow> store \<Rightarrow> store" where
  "mobileMessage_update sch now i f s =
     s\<lparr> mobileMessages := map (\<lambda>m. if msg_id m = i then touch sch now (f m) else m) (mobileMessages s) \<rparr>"

section \<open>MessagesService\<close>

text \<open>
  The request body of createMessage (\<^verbatim>\<open>data: any\<close>). An absent field is \<open>None\<close>;
  JavaScript treats an absent field and the empty string alike in a condition.
\<close>

record payload =
  data_title :: string
  data_body :: string
  data_attachments :: "attachments option"
  data_status :: "string option"
  data_audience :: "string option"
  data_attendeeId :: "ident option"
  data_inviteId :: "ident option"

definition truthy :: "string option \<Rightarrow> bool" where
  "truthy v = (case v of None \<Rightarrow> False | Some x \<Rightarrow> x \<noteq> [])"

text \<open>\<^verbatim>\<open>v || d\<close> on an optional string.\<close>

definition or_else :: "string option \<Rightarrow> string \<Rightarrow> string" where
  "or_else v d = (case v of None \<Rightarrow> d | Some x \<Rightarrow> if x = [] then d else x)"

text \<open>\<^verbatim>\<open>data.attachments || {}\<close>: objects and arrays are never falsy.\<close>

definition attachments_or_empty :: "attachments option \<Rightarrow> attachments" where
  "attachments_or_empty v = (case v of None \<Rightarrow> EmptyObject | Some a \<Rightarrow> a)"

text \<open>\<^verbatim>\<open>xs[0]\<close>, undefined on the empty array.\<close>

definition first :: "'a list \<Rightarrow> 'a option" where
  "first xs = (case xs of [] \<Rightarrow> None | x # _ \<Rightarrow> Some x)"

definition getMessages :: "store \<Rightarrow> ident \<Rightarrow> message list" where
  "getMessages s eid =
     orderBy_createdAt_desc (findMany_messages (\<lambda>m. eventId m = eid) s)"

definition getMessage :: "store \<Rightarrow> ident \<Rightarrow> ident \<Rightarrow> error + message" where
  "getMessage s eid i =
     (case findFirst_message (\<lambda>m. msg_id m = i \<and> eventId m = eid) s of
        None \<Rightarrow> Inl (NotFoundException (''Message with ID '' @ [CHR 0x22] @ i @ [CHR 0x22] @ '' not found''))
      | Some m \<Rightarrow> Inr m)"

text \<open>The three \<^verbatim>\<open>data\<close> literals that createMessage and its helpers pass to the store.\<close>

definition delivered_for_attendee ::
  "timestamp \<Rightarrow> ident \<Rightarrow> payload \<Rightarrow> ident option \<Rightarrow> create_data" where
  "delivered_for_attendee now eid data aid =
     \<lparr> c_eventId = eid,
       c_attendeeId = aid,
       c_inviteId = None,
       c_title = data_title data,
       c_body = data_body data,
       c_attachments = attachments_or_empty (data_attachments data),
       c_status = or_else (data_status data) ''sent'',
       c_deliveryStatus = Some Delivered,
       c_unread = True,
       c_deliveredAt = Some now \<rparr>"

definition queued_for_invite :: "ident \<Rightarrow> payload \<Rightarrow> ident option \<Rightarrow> create_data" where
  "queued_for_invite eid data iid =
     \<lparr> c_eventId = eid,
       c_attendeeId = None,
       c_inviteId = iid,
       c_title = data_title data,
       c_body = data_body data,
       c_attachments = attachments_or_empty (data_attachments data),
       c_status = or_else (data_status data) ''sent'',
       c_deliveryStatus = Some Queued,
       c_unread = True,
       c_deliveredAt = None \<rparr>"

definition fallback_message :: "timestamp \<Rightarrow> ident \<Rightarrow> payload \<Rightarrow> create_data" where
  "fallback_message now eid data =
     \<lparr> c_eventId = eid,
       c_attendeeId = data_attendeeId data,
       c_inviteId = None,
       c_title = data_title data,
       c_body = data_body data,
       c_attachments = attachments_or_empty (data_attachments data),
       c_status = or_else (data_status data) ''sent'',
       c_deliveryStatus = Some Delivered,
       c_unread = (if truthy (data_attendeeId data) then True else False),
       c_deliveredAt = Some now \<rparr>"

definition createDirectMessage ::
  "schema \<Rightarrow> timestamp \<Rightarrow> store \<Rightarrow> ident \<Rightarrow> payload \<Rightarrow> message \<times> store" where
  "createDirectMessage sch now s eid data =
     mobileMessage_create sch now
       (delivered_for_attendee now eid data (data_attendeeId data)) s"

definition createQueuedMessage ::
  "schema \<Rightarrow> timestamp \<Rightarrow> store \<Rightarrow> ident \<Rightarrow> payload \<Rightarrow> message \<times> store" where
  "createQueuedMessage sch now s eid data =
     mobileMessage_create sch now
       (queued_for_invite eid data (data_inviteId data)) s"

text \<open>
  The audience filter of the \<open>accepted\<close> selector: the e-mails of the event's invites with
  status \<open>accepted\<close>, joined with the e-mails of the event's attendees whose acceptedAt is
  set, select among the event's attendees.
\<close>

definition acceptedAttendees :: "store \<Rightarrow> ident \<Rightarrow> attendee list \<Rightarrow> attendee list" where
  "acceptedAttendees s eid allAttendees =
     (let attendeeEmails = map att_email allAttendees;
          acceptedInvites =
            filter (\<lambda>i. inv_eventId i = eid \<and> inv_email i \<in> set attendeeEmails
                          \<and> inv_status i = ''accepted'') (invites s);
          attendeesWithAcceptedAt =
            filter (\<lambda>a. att_eventId a = eid \<and> att_email a \<in> set attendeeEmails
                          \<and> att_acceptedAt a \<noteq> None) (attendees s);
          acceptedInviteEmails = set (map inv_email acceptedInvites);
          acceptedAtEmails = set (map att_email attendeesWithAcceptedAt);
          allAcceptedEmails = acceptedInviteEmails \<union> acceptedAtEmails
      in filter (\<lambda>a. att_email a \<in> allAcceptedEmails) allAttendees)"

definition createMessage ::
  "schema \<Rightarrow> timestamp \<Rightarrow> store \<Rightarrow> ident \<Rightarrow> payload \<Rightarrow> error + (message option \<times> store)" where
  "createMessage sch now s eid data =
     (if truthy (data_attendeeId data) then
        (case createDirectMessage sch now s eid data of (m, s') \<Rightarrow> Inr (Some m, s'))
      else if truthy (data_inviteId data) then
        (case createQueuedMessage sch now s eid data of (m, s') \<Rightarrow> Inr (Some m, s'))
      else if \<not> truthy (data_attendeeId data)
              \<and> (data_status data = Some ''sent'' \<or> data_status data = None) then
        (let allAttendees = filter (\<lambda>a. att_eventId a = eid) (attendees s) in
         if data_audience data \<noteq> Some ''accepted'' \<and> data_audience data = Some ''invited'' then
           (let allInvites = filter (\<lambda>i. inv_eventId i = eid) (invites s) in
            case createAll sch now (map (\<lambda>i. queued_for_invite eid data (Some (inv_id i))) allInvites) s of
              (inviteMessages, s') \<Rightarrow> Inr (first inviteMessages, s'))
         else
           (let attendees' =
                  (if data_audience data = Some ''accepted''
                   then acceptedAttendees s eid allAttendees else allAttendees)
            in case (if length attendees' > 0
                     then createAll sch now
                            (map (\<lambda>a. delivered_for_attendee now eid data (Some (att_id a))) attendees') s
                     else ([], s)) of
                 (attendeeMessages, s1) \<Rightarrow>
                   (let allInvites = filter (\<lambda>i. inv_eventId i = eid) (invites s1) in
                    case (if length allInvites > 0
                          then createAll sch now
                                 (map (\<lambda>i. queued_for_invite eid data (Some (inv_id i))) allInvites) s1
                          else ([], s1)) of
                      (inviteMessages, s2) \<Rightarrow>
                        Inr (case first attendeeMessages of
                               Some m \<Rightarrow> Some m
                             | None \<Rightarrow> first inviteMessages, s2))))
      else
        (case mobileMessage_create sch now (fallback_message now eid data) s of
           (m, s') \<Rightarrow> Inr (Some m, s')))"

text \<open>
  In createMessage the branch of the \<open>invited\<close> selector is the \<^verbatim>\<open>else if\<close> of the
  \<open>accepted\<close> test and returns from inside it; every other selector reaches the two
  fan-out steps that follow.
\<close>

text \<open>Delivery of the messages queued for an invite, called when its guest accepts.\<close>

definition promote :: "timestamp \<Rightarrow> ident \<Rightarrow> message \<Rightarrow> message" where
  "promote now aid m =
     m\<lparr> attendeeId := Some aid, deliveryStatus := Delivered, deliveredAt := Some now \<rparr>"

definition queued_for :: "ident \<Rightarrow> message \<Rightarrow> bool" where
  "queued_for iid = (\<lambda>m. inviteId m = Some iid \<and> deliveryStatus m = Queued)"

definition deliverQueuedMessages ::
  "schema \<Rightarrow> timestamp \<Rightarrow> store \<Rightarrow> ident \<Rightarrow> ident \<Rightarrow> error + (nat \<times> store)" where
  "deliverQueuedMessages sch now s iid aid =
     (let queuedMessages = findMany_messages (queued_for iid) s in
      if length queuedMessages = 0 then Inr (0, s)
      else (case mobileMessage_updateMany sch now (queued_for iid) (promote now aid) s of
              (updated, s') \<Rightarrow> Inr (updated, s')))"

text \<open>
  sendMessage re-sends a stored message, or a broadcast, to every attendee of the event.
  Its create call names neither deliveryStatus nor deliveredAt.
\<close>

definition send_to_attendee :: "ident \<Rightarrow> string \<Rightarrow> string \<Rightarrow> attachments \<Rightarrow> ident \<Rightarrow> create_data" where
  "send_to_attendee eid t b atts aid =
     \<lparr> c_eventId = eid,
       c_attendeeId = Some aid,
       c_inviteId = None,
       c_title = t,
       c_body = b,
       c_attachments = atts,
       c_status = ''sent'',
       c_deliveryStatus = None,
       c_unread = True,
       c_deliveredAt = None \<rparr>"

definition sendMessage ::
  "schema \<Rightarrow> timestamp \<Rightarrow> store \<Rightarrow> ident \<Rightarrow> ident \<Rightarrow> error + (message option \<times> store)" where
  "sendMessage sch now s eid messageId =
     (let message = findFirst_message (\<lambda>m. msg_id m = messageId \<and> eventId m = eid) s;
          found =
            (case message of
               Some m \<Rightarrow> Inr ((title m, body m, attachments m), s)
             | None \<Rightarrow>
                 (case find (\<lambda>b. bc_id b = messageId \<and> bc_eventId b = eid) (broadcasts s) of
                    None \<Rightarrow>
                      Inl (NotFoundException
                             (''Message with ID '' @ [CHR 0x22] @ messageId @ [CHR 0x22] @ '' not found''))
                  | Some b \<Rightarrow>
                      Inr ((bc_title b, bc_bodyHtml b, EmptyObject),
                           s\<lparr> broadcasts :=
                                map (\<lambda>b. if bc_id b = messageId
                                          then b\<lparr> bc_status := ''sent'', bc_sentAt := Some now \<rparr>
                                          else b) (broadcasts s) \<rparr>)))
      in case found of
           Inl e \<Rightarrow> Inl e
         | Inr ((t, b, atts), s1) \<Rightarrow>
             (let attendees' = filter (\<lambda>a. att_eventId a = eid) (attendees s1) in
              case createAll sch now (map (\<lambda>a. send_to_attendee eid t b atts (att_id a)) attendees') s1 of
                (mobileMessages', s2) \<Rightarrow>
                  Inr (case first mobileMessages' of Some m \<Rightarrow> Some m | None \<Rightarrow> message, s2)))"

section \<open>MobileService\<close>

record mobileMessageDto =
  dto_id :: ident
  dto_eventId :: ident
  dto_attendeeId :: "ident option"
  dto_title :: string
  dto_body :: string
  dto_attachments :: attachments
  dto_unread :: bool
  dto_createdAt :: timestamp
  dto_updatedAt :: timestamp

record mobileMessagesResponseDto =
  resp_data :: "mobileMessageDto list"
  resp_total :: nat
  resp_page :: nat
  resp_pageSize :: nat
  resp_totalPages :: nat

definition mapMessageToDto :: "message \<Rightarrow> mobileMessageDto" where
  "mapMessageToDto m =
     \<lparr> dto_id = msg_id m,
       dto_eventId = eventId m,
       dto_attendeeId = attendeeId m,
       dto_title = title m,
       dto_body = body m,
       dto_attachments = attachments m,
       dto_unread = unread m,
       dto_createdAt = createdAt m,
       dto_updatedAt = updatedAt m \<rparr>"

text \<open>
  The where clause of the recipient-facing listing:
  \<^verbatim>\<open>{ eventId, deliveryStatus: 'delivered', ...(attendeeId ? { attendeeId } : {}) }\<close>.
\<close>

definition whereClause :: "ident \<Rightarrow> ident option \<Rightarrow> message \<Rightarrow> bool" where
  "whereClause eid aid m =
     (eventId m = eid \<and> deliveryStatus m = Delivered
      \<and> (if truthy aid then attendeeId m = aid else True))"

text \<open>The rows that getMobileMessages reads before it maps them to DTOs.\<close>

definition mobileMessages_rows :: "store \<Rightarrow> ident \<Rightarrow> ident option \<Rightarrow> message list" where
  "mobileMessages_rows s eid aid =
     orderBy_createdAt_desc (findMany_messages (whereClause eid aid) s)"

definition getMobileMessages :: "store \<Rightarrow> ident \<Rightarrow> ident option \<Rightarrow> mobileMessagesResponseDto" where
  "getMobileMessages s eid aid =
     (let messages = mobileMessages_rows s eid aid;
          total = length (findMany_messages (whereClause eid aid) s)
      in \<lparr> resp_data = map mapMessageToDto messages,
            resp_total = total,
            resp_page = 1,
            resp_pageSize = length messages,
            resp_totalPages = 1 \<rparr>)"

definition getMobileMessage :: "store \<Rightarrow> ident \<Rightarrow> ident \<Rightarrow> error + mobileMessageDto" where
  "getMobileMessage s eid messageId =
     (case findFirst_message (\<lambda>m. msg_id m = messageId \<and> eventId m = eid) s of
        None \<Rightarrow> Inl (NotFoundException ''Message not found'')
      | Some m \<Rightarrow> Inr (mapMessageToDto m))"

definition acknowledgeMessage ::
  "schema \<Rightarrow> timestamp \<Rightarrow> store \<Rightarrow> ident \<Rightarrow> error + (bool \<times> store)" where
  "acknowledgeMessage sch now s messageId =
     (case findFirst_message (\<lambda>m. msg_id m = messageId) s of
        None \<Rightarrow> Inl (NotFoundException ''Message not found'')
      | Some m \<Rightarrow>
          Inr (True, mobileMessage_update sch now messageId (\<lambda>m. m\<lparr> unread := False \<rparr>) s))"

text \<open>
  MobileController: the routes \<^verbatim>\<open>/events/:eventId/mobile-messages/:id\<close> and
  \<^verbatim>\<open>/events/:eventId/mobile-messages/:id/acknowledge\<close>, behind the guard that supplies
  the signed-in attendee.
\<close>

definition controller_getMobileMessage ::
  "store \<Rightarrow> ident \<Rightarrow> ident \<Rightarrow> attendee \<Rightarrow> error + mobileMessageDto" where
  "controller_getMobileMessage s routeEventId i att = getMobileMessage s routeEventId i"

definition controller_acknowledgeMessage ::
  "schema \<Rightarrow> timestamp \<Rightarrow> store \<Rightarrow> ident \<Rightarrow> ident \<Rightarrow> attendee \<Rightarrow> error + (bool \<times> store)" where
  "controller_acknowledgeMessage sch now s routeEventId i att = acknowledgeMessage sch now s i"

section \<open>Observing a call\<close>

text \<open>The messages a call appended to the table: those of \<open>s'\<close> beyond the rows of \<open>s\<close>.\<close>

definition created :: "store \<Rightarrow> store \<Rightarrow> message list" where
  "created s s' = drop (length (mobileMessages s)) (mobileMessages s')"

text \<open>A stored row carries what the create call named, and the schema's default otherwise.\<close>

definition built_from :: "schema \<Rightarrow> message \<Rightarrow> create_data \<Rightarrow> bool" where
  "built_from sch m d =
     (eventId m = c_eventId d \<and> attendeeId m = c_attendeeId d \<and> inviteId m = c_inviteId d
      \<and> title m = c_title d \<and> body m = c_body d \<and> attachments m = c_attachments d
      \<and> status m = c_status d
      \<and> deliveryStatus m =
            (case c_deliveryStatus d of None \<Rightarrow> default_deliveryStatus sch | Some x \<Rightarrow> x)
      \<and> unread m = c_unread d \<and> deliveredAt m = c_deliveredAt d)"

text \<open>The recipient reference and delivery columns of a row.\<close>

definition recipient :: "message \<Rightarrow> ident option \<times> ident option \<times> delivery \<times> timestamp option" where
  "recipient m = (attendeeId m, inviteId m, deliveryStatus m, deliveredAt m)"

text \<open>
  The delivery invariant of the specification: a queued message carries an invite and no
  attendee, a delivered message carries its delivery time.
\<close>

definition delivery_invariant :: "message \<Rightarrow> bool" where
  "delivery_invariant m =
     (case deliveryStatus m of
        Queued \<Rightarrow> inviteId m \<noteq> None \<and> attendeeId m = None
      | Delivered \<Rightarrow> deliveredAt m \<noteq> None)"

section \<open>A sample event\<close>

text \<open>
  Ann has acceptedAt set and no invite; Bob has an accepted invite and no acceptedAt; Dan
  has a pending invite only. Of the three stored messages the second is still queued.
\<close>

definition sch0 :: schema where
  "sch0 = \<lparr> newId = (\<lambda>n. ''msg-'' @ replicate n (CHR ''x'')),
            default_deliveryStatus = Delivered, auto_updatedAt = True \<rparr>"

definition ann :: attendee where
  "ann = \<lparr> att_id = ''a1'', att_eventId = ''e1'', att_email = ''ann@x.org'', att_acceptedAt = Some 5 \<rparr>"

definition bob :: attendee where
  "bob = \<lparr> att_id = ''a2'', att_eventId = ''e1'', att_email = ''bob@x.org'', att_acceptedAt = None \<rparr>"

definition dan :: attendee where
  "dan = \<lparr> att_id = ''a3'', att_eventId = ''e1'', att_email = ''dan@x.org'', att_acceptedAt = None \<rparr>"

definition inv_bob :: invite where
  "inv_bob = \<lparr> inv_id = ''i1'', inv_eventId = ''e1'', inv_email = ''bob@x.org'', inv_status = ''accepted'' \<rparr>"

definition inv_dan :: invite where
  "inv_dan = \<lparr> inv_id = ''i2'', inv_eventId = ''e1'', inv_email = ''dan@x.org'', inv_status = ''pending'' \<rparr>"

definition m1 :: message where
  "m1 = \<lparr> msg_id = ''m1'', eventId = ''e1'', attendeeId = Some ''a1'', inviteId = None,
           title = ''Hello'', body = ''Welcome'', attachments = EmptyObject, status = ''sent'',
           deliveryStatus = Delivered, unread = True, deliveredAt = Some 10,
           createdAt = 10, updatedAt = 10 \<rparr>"

definition m2 :: message where
  "m2 = \<lparr> msg_id = ''m2'', eventId = ''e1'', attendeeId = None, inviteId = Some ''i2'',
           title = ''Agenda'', body = ''Day one'', attachments = EmptyObject, status = ''sent'',
           deliveryStatus = Queued, unread = True, deliveredAt = None,
           createdAt = 20, updatedAt = 20 \<rparr>"

definition m3 :: message where
  "m3 = \<lparr> msg_id = ''m3'', eventId = ''e1'', attendeeId = Some ''a2'', inviteId = None,
           title = ''Venue'', body = ''Hall B'', attachments = FileList [''map.pdf''], status = ''sent'',
           deliveryStatus = Delivered, unread = True, deliveredAt = Some 30,
           createdAt = 30, updatedAt = 30 \<rparr>"

definition store0 :: store where
  "store0 = \<lparr> attendees = [ann, bob, dan], invites = [inv_bob, inv_dan],
               mobileMessages = [m1, m2, m3], broadcasts = [], nextId = 0 \<rparr>"

definition broadcast_payload :: "string option \<Rightarrow> payload" where
  "broadcast_payload aud =
     \<lparr> data_title = ''News'', data_body = ''Doors open at nine'', data_attachments = None,
       data_status = None, data_audience = aud, data_attendeeId = None, data_inviteId = None \<rparr>"

definition both_payload :: payload where
  "both_payload = (broadcast_payload None)\<lparr> data_attendeeId := Some ''a1'', data_inviteId := Some ''i2'' \<rparr>"

section \<open>Properties of the store operations\<close>

lemmas sample_defs = store0_def sch0_def ann_def bob_def dan_def inv_bob_def inv_dan_def
  m1_def m2_def m3_def broadcast_payload_def both_payload_def

lemma orderBy_mset: "mset (orderBy_createdAt_desc ms) = mset ms"
  by (simp add: orderBy_createdAt_desc_def)

lemma orderBy_sorted:
  "sorted_wrt (\<lambda>a b. createdAt a \<ge> createdAt b) (orderBy_createdAt_desc ms)"
proof -
  have "sorted (map createdAt (sort_key createdAt ms))" by (rule sorted_sort_key)
  then have "sorted_wrt (\<lambda>a b. createdAt a \<le> createdAt b) (sort_key createdAt ms)"
    by (simp add: sorted_wrt_map)
  then show ?thesis
    by (simp add: orderBy_createdAt_desc_def sorted_wrt_rev)
qed

lemma create_result:
  "mobileMessage_create sch now d s = (m, s') \<Longrightarrow>
     mobileMessages s' = mobileMessages s @ [m] \<and> attendees s' = attendees s
     \<and> invites s' = invites s \<and> broadcasts s' = broadcasts s \<and> built_from sch m d"
  by (auto simp: mobileMessage_create_def Let_def built_from_def)

lemma createAll_result:
  "createAll sch now ds s = (ms, s') \<Longrightarrow>
     mobileMessages s' = mobileMessages s @ ms \<and> attendees s' = attendees s
     \<and> invites s' = invites s \<and> broadcasts s' = broadcasts s
     \<and> list_all2 (built_from sch) ms ds"
proof (induction ds arbitrary: s ms s')
  case Nil
  then show ?case by simp
next
  case (Cons d ds)
  obtain m s1 where c: "mobileMessage_create sch now d s = (m, s1)"
    by (cases "mobileMessage_create sch now d s")
  obtain ms1 s2 where r: "createAll sch now ds s1 = (ms1, s2)"
    by (cases "createAll sch now ds s1")
  from Cons.prems c r have e: "ms = m # ms1" "s' = s2" by simp_all
  from create_result[OF c] Cons.IH[OF r] e show ?case by simp
qed

lemma created_append: "mobileMessages s' = mobileMessages s @ ms \<Longrightarrow> created s s' = ms"
  by (simp add: created_def)

lemma built_map:
  assumes "list_all2 (built_from sch) ms ds" and "\<And>m d. built_from sch m d \<Longrightarrow> g m = h d"
  shows "map g ms = map h ds"
  using assms by (induction rule: list_all2_induct) simp_all

lemma recipient_delivered:
  "built_from sch m (delivered_for_attendee now eid data aid) \<Longrightarrow>
     recipient m = (aid, None, Delivered, Some now)"
  by (simp add: built_from_def delivered_for_attendee_def recipient_def)

lemma recipient_queued:
  "built_from sch m (queued_for_invite eid data iid) \<Longrightarrow>
     recipient m = (None, iid, Queued, None)"
  by (simp add: built_from_def queued_for_invite_def recipient_def)

lemma createAll_delivered:
  assumes "createAll sch now (map (\<lambda>a. delivered_for_attendee now eid data (Some (att_id a))) xs) s = (ms, s')"
  shows "mobileMessages s' = mobileMessages s @ ms \<and> invites s' = invites s
         \<and> map recipient ms = map (\<lambda>a. (Some (att_id a), None, Delivered, Some now)) xs"
proof -
  from createAll_result[OF assms]
  have a: "mobileMessages s' = mobileMessages s @ ms" "invites s' = invites s"
    and b: "list_all2 (built_from sch) ms (map (\<lambda>a. delivered_for_attendee now eid data (Some (att_id a))) xs)"
    by simp_all
  from b have "list_all2 (\<lambda>m a. built_from sch m (delivered_for_attendee now eid data (Some (att_id a)))) ms xs"
    by (simp add: list_all2_map2)
  then have "map recipient ms = map (\<lambda>a. (Some (att_id a), None, Delivered, Some now)) xs"
    by (induction rule: list_all2_induct) (simp_all add: recipient_delivered)
  with a show ?thesis by simp
qed

lemma createAll_queued:
  assumes "createAll sch now (map (\<lambda>i. queued_for_invite eid data (Some (inv_id i))) xs) s = (ms, s')"
  shows "mobileMessages s' = mobileMessages s @ ms
         \<and> map recipient ms = map (\<lambda>i. (None, Some (inv_id i), Queued, None)) xs"
proof -
  from createAll_result[OF assms]
  have a: "mobileMessages s' = mobileMessages s @ ms"
    and b: "list_all2 (built_from sch) ms (map (\<lambda>i. queued_for_invite eid data (Some (inv_id i))) xs)"
    by simp_all
  from b have "list_all2 (\<lambda>m i. built_from sch m (queued_for_invite eid data (Some (inv_id i)))) ms xs"
    by (simp add: list_all2_map2)
  then have "map recipient ms = map (\<lambda>i. (None, Some (inv_id i), Queued, None)) xs"
    by (induction rule: list_all2_induct) (simp_all add: recipient_queued)
  with a show ?thesis by simp
qed

lemma createAll_guard:
  "(if length xs > 0 then createAll sch now (map f xs) s else ([], s)) = createAll sch now (map f xs) s"
  by (cases xs) simp_all

text \<open>The fan-out of a broadcast whose selector is not \<open>invited\<close>.\<close>

lemma createMessage_fanout:
  assumes na: "\<not> truthy (data_attendeeId data)" and ni: "\<not> truthy (data_inviteId data)"
    and st: "data_status data = Some ''sent'' \<or> data_status data = None"
    and au: "data_audience data \<noteq> Some ''invited''"
  shows "\<exists>r s'. createMessage sch now s eid data = Inr (r, s')
           \<and> map recipient (created s s') =
               map (\<lambda>a. (Some (att_id a), None, Delivered, Some now))
                 (if data_audience data = Some ''accepted''
                  then acceptedAttendees s eid (filter (\<lambda>a. att_eventId a = eid) (attendees s))
                  else filter (\<lambda>a. att_eventId a = eid) (attendees s))
               @ map (\<lambda>i. (None, Some (inv_id i), Queued, None))
                   (filter (\<lambda>i. inv_eventId i = eid) (invites s))"
proof -
  define targets where "targets =
     (if data_audience data = Some ''accepted''
      then acceptedAttendees s eid (filter (\<lambda>a. att_eventId a = eid) (attendees s))
      else filter (\<lambda>a. att_eventId a = eid) (attendees s))"
  obtain am s1 where c1:
    "createAll sch now (map (\<lambda>a. delivered_for_attendee now eid data (Some (att_id a))) targets) s = (am, s1)"
    by (cases "createAll sch now (map (\<lambda>a. delivered_for_attendee now eid data (Some (att_id a))) targets) s")
  note r1 = createAll_delivered[OF c1]
  define qs where "qs = filter (\<lambda>i. inv_eventId i = eid) (invites s1)"
  obtain im s2 where c2:
    "createAll sch now (map (\<lambda>i. queued_for_invite eid data (Some (inv_id i))) qs) s1 = (im, s2)"
    by (cases "createAll sch now (map (\<lambda>i. queued_for_invite eid data (Some (inv_id i))) qs) s1")
  note r2 = createAll_queued[OF c2]
  have res: "createMessage sch now s eid data =
          Inr (case first am of Some m \<Rightarrow> Some m | None \<Rightarrow> first im, s2)"
    unfolding createMessage_def Let_def createAll_guard
    using na ni st au c1 c2
    by (simp add: targets_def[symmetric] qs_def[symmetric])
  have "mobileMessages s2 = mobileMessages s @ (am @ im)" using r1 r2 by simp
  then have "created s s2 = am @ im" by (rule created_append)
  then have "map recipient (created s s2) =
       map (\<lambda>a. (Some (att_id a), None, Delivered, Some now)) targets
       @ map (\<lambda>i. (None, Some (inv_id i), Queued, None)) (filter (\<lambda>i. inv_eventId i = eid) (invites s))"
    using r1 r2 by (simp add: qs_def)
  with res show ?thesis unfolding targets_def by blast
qed

lemma updateMany_nth:
  "k < length (mobileMessages s) \<Longrightarrow>
   mobileMessages (snd (mobileMessage_updateMany sch now P f s)) ! k =
     (if P (mobileMessages s ! k) then touch sch now (f (mobileMessages s ! k)) else mobileMessages s ! k)"
  by (simp add: mobileMessage_updateMany_def)

lemma deliver_none:
  assumes "\<forall>m \<in> set (mobileMessages s). \<not> (inviteId m = Some iid \<and> deliveryStatus m = Queued)"
  shows "deliverQueuedMessages sch now s iid aid = Inr (0, s)"
proof -
  from assms have "filter (queued_for iid) (mobileMessages s) = []"
    by (simp add: filter_empty_conv queued_for_def)
  then show ?thesis by (simp add: deliverQueuedMessages_def findMany_messages_def)
qed

lemma deliver_eq:
  "deliverQueuedMessages sch now s iid aid =
     Inr (length (filter (\<lambda>m. inviteId m = Some iid \<and> deliveryStatus m = Queued) (mobileMessages s)),
          s\<lparr> mobileMessages :=
               map (\<lambda>m. if inviteId m = Some iid \<and> deliveryStatus m = Queued
                        then touch sch now (promote now aid m) else m)
                 (mobileMessages s) \<rparr>)"
proof (cases "filter (queued_for iid) (mobileMessages s) = []")
  case True
  then have n: "\<forall>m \<in> set (mobileMessages s). \<not> (inviteId m = Some iid \<and> deliveryStatus m = Queued)"
    by (simp add: filter_empty_conv queued_for_def)
  then have "map (\<lambda>m. if inviteId m = Some iid \<and> deliveryStatus m = Queued
                        then touch sch now (promote now aid m) else m)
                                 (mobileMessages s) = mobileMessages s"
    by (intro map_idI) auto
  moreover from n have "filter (\<lambda>m. inviteId m = Some iid \<and> deliveryStatus m = Queued) (mobileMessages s) = []"
    by (simp add: filter_empty_conv)
  ultimately show ?thesis
    using deliver_none[OF n] by simp
next
  case False
  then show ?thesis
    by (simp add: deliverQueuedMessages_def findMany_messages_def mobileMessage_updateMany_def
          queued_for_def)
qed

lemma acceptedAttendees_member:
  assumes uniq: "\<forall>x \<in> set (attendees s). \<forall>y \<in> set (attendees s).
                   att_eventId x = att_eventId y \<and> att_email x = att_email y \<longrightarrow> x = y"
    and a: "a \<in> set (attendees s)" and e: "att_eventId a = eid"
  shows "a \<in> set (acceptedAttendees s eid (filter (\<lambda>x. att_eventId x = eid) (attendees s)))
         \<longleftrightarrow> ((\<exists>i \<in> set (invites s). inv_eventId i = eid \<and> inv_email i = att_email a
                                       \<and> inv_status i = ''accepted'')
              \<or> att_acceptedAt a \<noteq> None)"
proof -
  let ?all = "filter (\<lambda>x. att_eventId x = eid) (attendees s)"
  have m: "a \<in> set ?all" using a e by simp
  have em: "att_email a \<in> set (map att_email ?all)"
    unfolding set_map using m by (rule imageI)
  have inv: "att_email a \<in> set (map inv_email
                 (filter (\<lambda>i. inv_eventId i = eid \<and> inv_email i \<in> set (map att_email ?all)
                                \<and> inv_status i = ''accepted'') (invites s)))
             \<longleftrightarrow> (\<exists>i \<in> set (invites s). inv_eventId i = eid \<and> inv_email i = att_email a
                                       \<and> inv_status i = ''accepted'')"
  proof
    assume "att_email a \<in> set (map inv_email
                 (filter (\<lambda>i. inv_eventId i = eid \<and> inv_email i \<in> set (map att_email ?all)
                                \<and> inv_status i = ''accepted'') (invites s)))"
    then obtain i where "i \<in> set (invites s)" "inv_eventId i = eid" "inv_status i = ''accepted''"
      "inv_email i = att_email a"
      by (auto simp: image_iff)
    then show "\<exists>i \<in> set (invites s). inv_eventId i = eid \<and> inv_email i = att_email a
                                       \<and> inv_status i = ''accepted''" by blast
  next
    assume "\<exists>i \<in> set (invites s). inv_eventId i = eid \<and> inv_email i = att_email a
                                       \<and> inv_status i = ''accepted''"
    then obtain i where i: "i \<in> set (invites s)" "inv_eventId i = eid" "inv_status i = ''accepted''"
      "inv_email i = att_email a" by blast
    with em have "i \<in> set (filter (\<lambda>i. inv_eventId i = eid \<and> inv_email i \<in> set (map att_email ?all)
                                \<and> inv_status i = ''accepted'') (invites s))"
      by simp
    then have "inv_email i \<in> set (map inv_email (filter (\<lambda>i. inv_eventId i = eid \<and> inv_email i \<in> set (map att_email ?all)
                                \<and> inv_status i = ''accepted'') (invites s)))"
      unfolding set_map by (rule imageI)
    with i(4) show "att_email a \<in> set (map inv_email
                 (filter (\<lambda>i. inv_eventId i = eid \<and> inv_email i \<in> set (map att_email ?all)
                                \<and> inv_status i = ''accepted'') (invites s)))"
      by simp
  qed
  have acc: "att_email a \<in> set (map att_email
                 (filter (\<lambda>x. att_eventId x = eid \<and> att_email x \<in> set (map att_email ?all)
                                \<and> att_acceptedAt x \<noteq> None) (attendees s)))
             \<longleftrightarrow> att_acceptedAt a \<noteq> None"
  proof
    assume "att_email a \<in> set (map att_email
                 (filter (\<lambda>x. att_eventId x = eid \<and> att_email x \<in> set (map att_email ?all)
                                \<and> att_acceptedAt x \<noteq> None) (attendees s)))"
    then obtain y where y: "y \<in> set (attendees s)" "att_eventId y = eid" "att_acceptedAt y \<noteq> None"
      "att_email y = att_email a"
      by (auto simp: image_iff)
    with uniq a e have "y = a" by blast
    with y(3) show "att_acceptedAt a \<noteq> None" by simp
  next
    assume "att_acceptedAt a \<noteq> None"
    with a e em have "a \<in> set (filter (\<lambda>x. att_eventId x = eid \<and> att_email x \<in> set (map att_email ?all)
                                \<and> att_acceptedAt x \<noteq> None) (attendees s))"
      by simp
    then show "att_email a \<in> set (map att_email
                 (filter (\<lambda>x. att_eventId x = eid \<and> att_email x \<in> set (map att_email ?all)
                                \<and> att_acceptedAt x \<noteq> None) (attendees s)))"
      unfolding set_map by (rule imageI)
  qed
  have "a \<in> set (acceptedAttendees s eid ?all) \<longleftrightarrow>
          att_email a \<in> set (map inv_email
                 (filter (\<lambda>i. inv_eventId i = eid \<and> inv_email i \<in> set (map att_email ?all)
                                \<and> inv_status i = ''accepted'') (invites s)))
          \<or> att_email a \<in> set (map att_email
                 (filter (\<lambda>x. att_eventId x = eid \<and> att_email x \<in> set (map att_email ?all)
                                \<and> att_acceptedAt x \<noteq> None) (attendees s)))"
    using m unfolding acceptedAttendees_def Let_def by (simp only: set_filter mem_Collect_eq Un_iff simp_thms)
  then show ?thesis unfolding inv acc .
qed

lemma delivered_part:
  assumes "map recipient xs =
             map (\<lambda>a. (Some (att_id a), None, Delivered, Some now)) ts
             @ map (\<lambda>i. (None, Some (inv_id i), Queued, None)) qs"
  shows "map attendeeId (filter (\<lambda>m. deliveryStatus m = Delivered) xs) = map (\<lambda>a. Some (att_id a)) ts"
    and "map inviteId (filter (\<lambda>m. deliveryStatus m = Queued) xs) = map (\<lambda>i. Some (inv_id i)) qs"
proof -
  have "map attendeeId (filter (\<lambda>m. deliveryStatus m = Delivered) xs)
        = map fst (filter (\<lambda>r. fst (snd (snd r)) = Delivered) (map recipient xs))"
    by (simp add: filter_map o_def recipient_def)
  also have "\<dots> = map (\<lambda>a. Some (att_id a)) ts"
    unfolding assms by (simp add: filter_map o_def)
  finally show "map attendeeId (filter (\<lambda>m. deliveryStatus m = Delivered) xs) = map (\<lambda>a. Some (att_id a)) ts" .
  have "map inviteId (filter (\<lambda>m. deliveryStatus m = Queued) xs)
        = map (fst \<circ> snd) (filter (\<lambda>r. fst (snd (snd r)) = Queued) (map recipient xs))"
    by (simp add: filter_map o_def recipient_def)
  also have "\<dots> = map (\<lambda>i. Some (inv_id i)) qs"
    unfolding assms by (simp add: filter_map o_def)
  finally show "map inviteId (filter (\<lambda>m. deliveryStatus m = Queued) xs) = map (\<lambda>i. Some (inv_id i)) qs" .
qed

lemma find_by_id:
  assumes "distinct (map msg_id ms)" and "m \<in> set ms" and "P m"
  shows "find (\<lambda>x. msg_id x = msg_id m \<and> P x) ms = Some m"
  using assms
proof (induction ms)
  case Nil
  then show ?case by simp
next
  case (Cons x xs)
  then show ?case by (cases "x = m") (auto simp: image_iff)
qed

lemma built_send:
  "built_from sch m (send_to_attendee eid t b atts aid) \<Longrightarrow>
     attendeeId m = Some aid \<and> inviteId m = None \<and> deliveredAt m = None
     \<and> deliveryStatus m = default_deliveryStatus sch"
  by (simp add: built_from_def send_to_attendee_def)

lemma built_send_all:
  assumes "list_all2 (built_from sch) ms (map (\<lambda>a. send_to_attendee eid t b atts (att_id a)) xs)"
    and "m \<in> set ms"
  shows "attendeeId m \<noteq> None \<and> inviteId m = None \<and> deliveredAt m = None"
proof -
  from assms(1) have "list_all2 (\<lambda>m a. built_from sch m (send_to_attendee eid t b atts (att_id a))) ms xs"
    by (simp add: list_all2_map2)
  then have "\<forall>m \<in> set ms. attendeeId m \<noteq> None \<and> inviteId m = None \<and> deliveredAt m = None"
    by (induction rule: list_all2_induct) (auto dest: built_send)
  with assms(2) show ?thesis by blast
qed

text \<open>
  Every message that createMessage writes, on each of its five paths, and every message that
  deliverQueuedMessages updates satisfies the delivery invariant.
\<close>

lemma invariant_delivered: "recipient m = (a, i, Delivered, Some t) \<Longrightarrow> delivery_invariant m"
  by (simp add: recipient_def delivery_invariant_def)

lemma invariant_queued: "recipient m = (None, Some i, Queued, d) \<Longrightarrow> delivery_invariant m"
  by (simp add: recipient_def delivery_invariant_def)

lemma invariant_fanout:
  assumes "map recipient xs =
             map (\<lambda>a. (Some (att_id a), None, Delivered, Some now)) ts
             @ map (\<lambda>i. (None, Some (inv_id i), Queued, None)) qs"
    and "m \<in> set xs"
  shows "delivery_invariant m"
proof -
  from assms(2) have "recipient m \<in> set (map recipient xs)" by simp
  then have "recipient m \<in> (\<lambda>a. (Some (att_id a), None, Delivered, Some now)) ` set ts
             \<or> recipient m \<in> (\<lambda>i. (None, Some (inv_id i), Queued, None)) ` set qs"
    unfolding assms(1) by simp
  then show ?thesis
    by (auto intro: invariant_delivered invariant_queued)
qed

lemma createMessage_delivery_invariant:
  assumes r: "createMessage sch now s eid data = Inr (r, s')" and m: "m \<in> set (created s s')"
  shows "delivery_invariant m"
proof -
  consider (direct) "truthy (data_attendeeId data)"
    | (queued) "\<not> truthy (data_attendeeId data)" "truthy (data_inviteId data)"
    | (invited) "\<not> truthy (data_attendeeId data)" "\<not> truthy (data_inviteId data)"
        "data_status data = Some ''sent'' \<or> data_status data = None"
        "data_audience data = Some ''invited''"
    | (fanout) "\<not> truthy (data_attendeeId data)" "\<not> truthy (data_inviteId data)"
        "data_status data = Some ''sent'' \<or> data_status data = None"
        "data_audience data \<noteq> Some ''invited''"
    | (fallback) "\<not> truthy (data_attendeeId data)" "\<not> truthy (data_inviteId data)"
        "\<not> (data_status data = Some ''sent'' \<or> data_status data = None)"
    by argo
  then show ?thesis
  proof cases
    case direct
    obtain x s1 where c: "mobileMessage_create sch now
         (delivered_for_attendee now eid data (data_attendeeId data)) s = (x, s1)"
      by (cases "mobileMessage_create sch now
         (delivered_for_attendee now eid data (data_attendeeId data)) s")
    with direct r have "s' = s1" by (simp add: createMessage_def createDirectMessage_def)
    with create_result[OF c] m have "m = x" by (simp add: created_def)
    with create_result[OF c] show ?thesis
      by (auto dest: recipient_delivered intro: invariant_delivered)
  next
    case queued
    obtain x s1 where c: "mobileMessage_create sch now
         (queued_for_invite eid data (data_inviteId data)) s = (x, s1)"
      by (cases "mobileMessage_create sch now
         (queued_for_invite eid data (data_inviteId data)) s")
    with queued r have "s' = s1" by (simp add: createMessage_def createQueuedMessage_def)
    with create_result[OF c] m have "m = x" by (simp add: created_def)
    moreover from queued(2) obtain i where "data_inviteId data = Some i"
      by (cases "data_inviteId data") (simp_all add: truthy_def)
    ultimately show ?thesis using create_result[OF c]
      by (auto dest: recipient_queued intro: invariant_queued)
  next
    case invited
    obtain ms s1 where c: "createAll sch now
        (map (\<lambda>i. queued_for_invite eid data (Some (inv_id i))) (filter (\<lambda>i. inv_eventId i = eid) (invites s))) s
          = (ms, s1)"
      by (cases "createAll sch now
        (map (\<lambda>i. queued_for_invite eid data (Some (inv_id i))) (filter (\<lambda>i. inv_eventId i = eid) (invites s))) s")
    with invited r have "s' = s1" by (simp add: createMessage_def Let_def)
    with createAll_queued[OF c] have
      "map recipient (created s s') = map (\<lambda>a. (Some (att_id a), None, Delivered, Some now)) []
         @ map (\<lambda>i. (None, Some (inv_id i), Queued, None)) (filter (\<lambda>i. inv_eventId i = eid) (invites s))"
      by (simp add: created_append)
    then show ?thesis using m by (rule invariant_fanout)
  next
    case fanout
    from createMessage_fanout[OF fanout, of sch now s eid] r
    have "map recipient (created s s') =
        map (\<lambda>a. (Some (att_id a), None, Delivered, Some now))
          (if data_audience data = Some ''accepted''
           then acceptedAttendees s eid (filter (\<lambda>a. att_eventId a = eid) (attendees s))
           else filter (\<lambda>a. att_eventId a = eid) (attendees s))
         @ map (\<lambda>i. (None, Some (inv_id i), Queued, None)) (filter (\<lambda>i. inv_eventId i = eid) (invites s))"
      by auto
    then show ?thesis using m by (rule invariant_fanout)
  next
    case fallback
    obtain x s1 where c: "mobileMessage_create sch now (fallback_message now eid data) s = (x, s1)"
      by (cases "mobileMessage_create sch now (fallback_message now eid data) s")
    moreover from fallback(3) obtain y where "data_status data = Some y" "y \<noteq> ''sent''"
      by (cases "data_status data") auto
    ultimately have "s' = s1" using fallback(1,2) r by (simp add: createMessage_def)
    with create_result[OF c] m have "m = x" by (simp add: created_def)
    with create_result[OF c] show ?thesis
      by (simp add: built_from_def fallback_message_def delivery_invariant_def)
  qed
qed

lemma deliverQueuedMessages_delivery_invariant:
  assumes "deliverQueuedMessages sch now s iid aid = Inr (n, s')"
    and "k < length (mobileMessages s)"
    and "inviteId (mobileMessages s ! k) = Some iid \<and> deliveryStatus (mobileMessages s ! k) = Queued"
  shows "delivery_invariant (mobileMessages s' ! k)"
  using assms unfolding deliver_eq
  by (auto simp: delivery_invariant_def touch_def promote_def)

section \<open>The claims\<close>

text \<open>
  Claim C1. The recipient-facing listing getMobileMessages returns, as DTOs, exactly the
  messages of the event whose delivery state is delivered, restricted to the attendee when
  a (non-empty) attendeeId is given, newest-created first; no queued message is among the
  rows it returns.
\<close>

theorem getMobileMessages_delivered_only:
  "resp_data (getMobileMessages s eid aid) = map mapMessageToDto (mobileMessages_rows s eid aid)
   \<and> mset (mobileMessages_rows s eid aid) =
       filter_mset (\<lambda>m. eventId m = eid \<and> deliveryStatus m = Delivered
                         \<and> (truthy aid \<longrightarrow> attendeeId m = aid)) (mset (mobileMessages s))
   \<and> sorted_wrt (\<lambda>a b. createdAt a \<ge> createdAt b) (mobileMessages_rows s eid aid)
   \<and> (\<forall>m \<in> set (mobileMessages_rows s eid aid). deliveryStatus m \<noteq> Queued)"
proof -
  have w: "whereClause eid aid = (\<lambda>m. eventId m = eid \<and> deliveryStatus m = Delivered
                         \<and> (truthy aid \<longrightarrow> attendeeId m = aid))"
    by (auto simp: whereClause_def fun_eq_iff)
  have a: "resp_data (getMobileMessages s eid aid) = map mapMessageToDto (mobileMessages_rows s eid aid)"
    by (simp add: getMobileMessages_def Let_def)
  have b: "mset (mobileMessages_rows s eid aid) =
       filter_mset (\<lambda>m. eventId m = eid \<and> deliveryStatus m = Delivered
                         \<and> (truthy aid \<longrightarrow> attendeeId m = aid)) (mset (mobileMessages s))"
    by (simp add: mobileMessages_rows_def findMany_messages_def orderBy_mset w)
  have c: "sorted_wrt (\<lambda>a b. createdAt a \<ge> createdAt b) (mobileMessages_rows s eid aid)"
    by (simp add: mobileMessages_rows_def orderBy_sorted)
  have "set (mobileMessages_rows s eid aid) = set_mset (mset (mobileMessages_rows s eid aid))" by simp
  then have d: "\<forall>m \<in> set (mobileMessages_rows s eid aid). deliveryStatus m \<noteq> Queued"
    unfolding b by auto
  from a b c d show ?thesis by blast
qed

theorem getMobileMessages_delivered_only_witness:
  "truthy (Some ''a1'')
   \<and> mobileMessages_rows store0 ''e1'' (Some ''a1'') = [m1]
   \<and> mobileMessages_rows store0 ''e1'' None = [m3, m1]
   \<and> resp_data (getMobileMessages store0 ''e1'' (Some ''a1'')) = [mapMessageToDto m1]
   \<and> deliveryStatus m2 = Queued \<and> eventId m2 = ''e1''"
  using getMobileMessages_delivered_only[where s = store0 and eid = "''e1''" and aid = "Some ''a1''"]
  by (simp add: sample_defs mobileMessages_rows_def findMany_messages_def whereClause_def
        truthy_def orderBy_createdAt_desc_def)

text \<open>
  Claim C2, as stated: a broadcast to the \<open>accepted\<close> audience creates no queued message.
  On the sample event it creates two, one for each invite of the event: only the
  \<open>invited\<close> selector returns before the step that queues for all invites.
\<close>

theorem accepted_broadcast_queues_counterexample:
  "map_sum id (\<lambda>(r, s'). map recipient (created store0 s'))
     (createMessage sch0 100 store0 ''e1'' (broadcast_payload (Some ''accepted'')))
   = Inr [(Some ''a1'', None, Delivered, Some 100), (Some ''a2'', None, Delivered, Some 100),
          (None, Some ''i1'', Queued, None), (None, Some ''i2'', Queued, None)]"
  by (simp add: sample_defs createMessage_def truthy_def acceptedAttendees_def Let_def
        mobileMessage_create_def delivered_for_attendee_def queued_for_invite_def
        attachments_or_empty_def or_else_def first_def created_def recipient_def)

text \<open>
  Claim C2, amended: a broadcast to the \<open>accepted\<close> audience (no attendeeId, no inviteId,
  status \<open>sent\<close> or absent) creates one delivered message for each accepted attendee of the
  event, for no other attendee, and one queued message for every invite of the event.
\<close>

theorem createMessage_accepted_fanout:
  assumes na: "\<not> truthy (data_attendeeId data)" and ni: "\<not> truthy (data_inviteId data)"
    and st: "data_status data = Some ''sent'' \<or> data_status data = None"
    and au: "data_audience data = Some ''accepted''"
  shows "\<exists>r s'. createMessage sch now s eid data = Inr (r, s')
           \<and> map recipient (created s s') =
               map (\<lambda>a. (Some (att_id a), None, Delivered, Some now))
                 (acceptedAttendees s eid (filter (\<lambda>a. att_eventId a = eid) (attendees s)))
               @ map (\<lambda>i. (None, Some (inv_id i), Queued, None))
                   (filter (\<lambda>i. inv_eventId i = eid) (invites s))"
proof -
  have au': "data_audience data \<noteq> Some ''invited''" using au by simp
  from createMessage_fanout[OF na ni st au', of sch now s eid] au
  show ?thesis by simp
qed

theorem createMessage_accepted_fanout_witness:
  "\<exists>r s'. createMessage sch0 100 store0 ''e1'' (broadcast_payload (Some ''accepted'')) = Inr (r, s')
      \<and> map recipient (created store0 s') =
            [(Some ''a1'', None, Delivered, Some 100), (Some ''a2'', None, Delivered, Some 100),
             (None, Some ''i1'', Queued, None), (None, Some ''i2'', Queued, None)]"
proof -
  let ?d = "broadcast_payload (Some ''accepted'')"
  have h: "\<not> truthy (data_attendeeId ?d)" "\<not> truthy (data_inviteId ?d)"
    "data_status ?d = Some ''sent'' \<or> data_status ?d = None" "data_audience ?d = Some ''accepted''"
    by (simp_all add: broadcast_payload_def truthy_def)
  have t: "acceptedAttendees store0 ''e1'' (filter (\<lambda>a. att_eventId a = ''e1'') (attendees store0)) = [ann, bob]"
    by (simp add: sample_defs acceptedAttendees_def Let_def)
  have q: "filter (\<lambda>i. inv_eventId i = ''e1'') (invites store0) = [inv_bob, inv_dan]"
    by (simp add: sample_defs)
  from createMessage_accepted_fanout[OF h, where sch = sch0 and now = 100 and s = store0 and eid = "''e1''"]
  show ?thesis unfolding t q by (simp add: ann_def bob_def inv_bob_def inv_dan_def)
qed

text \<open>
  Claim C3, as stated: a payload with both attendeeId and inviteId is rejected and nothing
  is written. On the sample event the call succeeds and writes a delivered message.
\<close>

theorem both_recipients_counterexample:
  "map_sum id (\<lambda>(r, s'). map recipient (created store0 s'))
     (createMessage sch0 100 store0 ''e1'' both_payload)
   = Inr [(Some ''a1'', None, Delivered, Some 100)]"
  by (simp add: sample_defs createMessage_def createDirectMessage_def truthy_def Let_def
        mobileMessage_create_def delivered_for_attendee_def attachments_or_empty_def or_else_def
        created_def recipient_def)

text \<open>
  Claim C3, amended: when both attendeeId and inviteId are set, createMessage takes the
  direct path. It raises no error and appends exactly one message, delivered to the given
  attendee at the time of the call, with no invite reference.
\<close>

theorem createMessage_both_recipients_direct:
  assumes "truthy (data_attendeeId data)" and "truthy (data_inviteId data)"
  shows "\<exists>m s'. createMessage sch now s eid data = Inr (Some m, s')
           \<and> mobileMessages s' = mobileMessages s @ [m]
           \<and> recipient m = (data_attendeeId data, None, Delivered, Some now)"
proof -
  obtain m s' where c: "mobileMessage_create sch now
       (delivered_for_attendee now eid data (data_attendeeId data)) s = (m, s')"
    by (cases "mobileMessage_create sch now
       (delivered_for_attendee now eid data (data_attendeeId data)) s")
  from create_result[OF c] have "mobileMessages s' = mobileMessages s @ [m]"
    and "recipient m = (data_attendeeId data, None, Delivered, Some now)"
    by (auto dest: recipient_delivered)
  moreover have "createMessage sch now s eid data = Inr (Some m, s')"
    using assms(1) c by (simp add: createMessage_def createDirectMessage_def)
  ultimately show ?thesis by blast
qed

theorem createMessage_both_recipients_direct_witness:
  "truthy (data_attendeeId both_payload) \<and> truthy (data_inviteId both_payload)
   \<and> (\<exists>m s'. createMessage sch0 100 store0 ''e1'' both_payload = Inr (Some m, s')
         \<and> mobileMessages s' = mobileMessages store0 @ [m]
         \<and> recipient m = (Some ''a1'', None, Delivered, Some 100))"
proof -
  have h: "truthy (data_attendeeId both_payload)" "truthy (data_inviteId both_payload)"
    by (simp_all add: both_payload_def broadcast_payload_def truthy_def)
  have a: "data_attendeeId both_payload = Some ''a1''"
    by (simp add: both_payload_def broadcast_payload_def)
  from createMessage_both_recipients_direct[OF h, where sch = sch0 and now = 100 and s = store0
          and eid = "''e1''"] h
  show ?thesis unfolding a by simp
qed

text \<open>
  Claim C4: every message written by the subsystem satisfies the delivery invariant. The
  lemmas \<open>createMessage_delivery_invariant\<close> and \<open>deliverQueuedMessages_delivery_invariant\<close>
  above establish it for createMessage and for deliverQueuedMessages. sendMessage breaks it:
  each message it creates carries an attendee, no invite and no delivery time, so it is
  either delivered without a delivery time or queued for an attendee, whatever the default
  delivery state of the schema.
\<close>

theorem sendMessage_breaks_delivery_invariant:
  assumes "sendMessage sch now s eid messageId = Inr (r, s')" and "m \<in> set (created s s')"
  shows "\<not> delivery_invariant m \<and> attendeeId m \<noteq> None \<and> inviteId m = None \<and> deliveredAt m = None"
proof -
  have "\<exists>t b atts s1 ms. mobileMessages s1 = mobileMessages s
          \<and> createAll sch now (map (\<lambda>a. send_to_attendee eid t b atts (att_id a))
                (filter (\<lambda>a. att_eventId a = eid) (attendees s1))) s1 = (ms, s')"
  proof (cases "find (\<lambda>m. msg_id m = messageId \<and> eventId m = eid) (mobileMessages s)")
    case (Some x)
    with assms(1) have "createAll sch now (map (\<lambda>a. send_to_attendee eid (title x) (body x) (attachments x) (att_id a))
                (filter (\<lambda>a. att_eventId a = eid) (attendees s))) s
             = (fst (createAll sch now (map (\<lambda>a. send_to_attendee eid (title x) (body x) (attachments x) (att_id a))
                (filter (\<lambda>a. att_eventId a = eid) (attendees s))) s), s')"
      by (simp add: sendMessage_def Let_def findFirst_message_def split: prod.splits)
    then show ?thesis by blast
  next
    case None
    show ?thesis
    proof (cases "find (\<lambda>b. bc_id b = messageId \<and> bc_eventId b = eid) (broadcasts s)")
      case None
      with \<open>find (\<lambda>m. msg_id m = messageId \<and> eventId m = eid) (mobileMessages s) = None\<close> assms(1)
      show ?thesis by (simp add: sendMessage_def Let_def findFirst_message_def)
    next
      case (Some x)
      let ?s1 = "s\<lparr> broadcasts := map (\<lambda>b. if bc_id b = messageId
                                          then b\<lparr> bc_status := ''sent'', bc_sentAt := Some now \<rparr>
                                          else b) (broadcasts s) \<rparr>"
      from Some \<open>find (\<lambda>m. msg_id m = messageId \<and> eventId m = eid) (mobileMessages s) = None\<close> assms(1)
      have "createAll sch now (map (\<lambda>a. send_to_attendee eid (bc_title x) (bc_bodyHtml x) EmptyObject (att_id a))
                (filter (\<lambda>a. att_eventId a = eid) (attendees ?s1))) ?s1
             = (fst (createAll sch now (map (\<lambda>a. send_to_attendee eid (bc_title x) (bc_bodyHtml x) EmptyObject (att_id a))
                (filter (\<lambda>a. att_eventId a = eid) (attendees ?s1))) ?s1), s')"
        by (simp add: sendMessage_def Let_def findFirst_message_def split: prod.splits)
      moreover have "mobileMessages ?s1 = mobileMessages s" by simp
      ultimately show ?thesis by blast
    qed
  qed
  then obtain t b atts s1 ms where
    s1: "mobileMessages s1 = mobileMessages s"
    and c: "createAll sch now (map (\<lambda>a. send_to_attendee eid t b atts (att_id a))
              (filter (\<lambda>a. att_eventId a = eid) (attendees s1))) s1 = (ms, s')"
    by blast
  from createAll_result[OF c] s1 have "created s s' = ms"
    by (simp add: created_append)
  with assms(2) createAll_result[OF c] have
    "attendeeId m \<noteq> None \<and> inviteId m = None \<and> deliveredAt m = None"
    by (auto dest: built_send_all)
  then show ?thesis
    by (auto simp: delivery_invariant_def split: delivery.splits)
qed

theorem sendMessage_breaks_delivery_invariant_witness:
  "\<exists>r s' m. sendMessage sch0 100 store0 ''e1'' ''m1'' = Inr (r, s')
      \<and> map recipient (created store0 s') =
           [(Some ''a1'', None, Delivered, None), (Some ''a2'', None, Delivered, None),
            (Some ''a3'', None, Delivered, None)]
      \<and> m \<in> set (created store0 s') \<and> \<not> delivery_invariant m"
proof -
  define res where "res = sendMessage sch0 100 store0 ''e1'' ''m1''"
  have ev: "map_sum id (\<lambda>(r, s'). map recipient (created store0 s')) res =
              Inr [(Some ''a1'', None, Delivered, None), (Some ''a2'', None, Delivered, None),
                   (Some ''a3'', None, Delivered, None)]"
    unfolding res_def
    by (simp add: sample_defs sendMessage_def findFirst_message_def Let_def first_def
          mobileMessage_create_def send_to_attendee_def created_def recipient_def)
  then obtain r s' where r: "res = Inr (r, s')"
    and c: "map recipient (created store0 s') =
              [(Some ''a1'', None, Delivered, None), (Some ''a2'', None, Delivered, None),
               (Some ''a3'', None, Delivered, None)]"
    by (cases res) auto
  from c obtain m where m: "m \<in> set (created store0 s')"
    by (cases "created store0 s'") auto
  note r' = r[unfolded res_def]
  from sendMessage_breaks_delivery_invariant[OF r' m]
  have ni: "\<not> delivery_invariant m" by simp
  show ?thesis
    by (intro exI[of _ r] exI[of _ s'] exI[of _ m] conjI r' c m ni)
qed

text \<open>
  Claim C5. deliverQueuedMessages updates exactly the messages that are queued for the
  given invite: each gets the given attendeeId, the state delivered and the time of the
  call as deliveredAt, every other message is left as it is, and the call returns the
  number of messages it promoted; with none to promote it returns 0 and changes nothing.
\<close>

theorem deliverQueuedMessages_promotes:
  "case deliverQueuedMessages sch now s iid aid of
     Inl e \<Rightarrow> False
   | Inr (n, s') \<Rightarrow>
       n = length (filter (\<lambda>m. inviteId m = Some iid \<and> deliveryStatus m = Queued) (mobileMessages s))
       \<and> length (mobileMessages s') = length (mobileMessages s)
       \<and> (\<forall>k < length (mobileMessages s).
            (if inviteId (mobileMessages s ! k) = Some iid \<and> deliveryStatus (mobileMessages s ! k) = Queued
             then attendeeId (mobileMessages s' ! k) = Some aid
                  \<and> deliveryStatus (mobileMessages s' ! k) = Delivered
                  \<and> deliveredAt (mobileMessages s' ! k) = Some now
                  \<and> mobileMessages s' ! k =
                      (mobileMessages s ! k)\<lparr> attendeeId := Some aid, deliveryStatus := Delivered,
                         deliveredAt := Some now, updatedAt := updatedAt (mobileMessages s' ! k) \<rparr>
             else mobileMessages s' ! k = mobileMessages s ! k))
       \<and> attendees s' = attendees s \<and> invites s' = invites s
       \<and> (n = 0 \<longrightarrow> s' = s)"
proof -
  let ?P = "\<lambda>m. inviteId m = Some iid \<and> deliveryStatus m = Queued"
  let ?ms' = "map (\<lambda>m. if ?P m then touch sch now (promote now aid m) else m) (mobileMessages s)"
  have e: "deliverQueuedMessages sch now s iid aid =
             Inr (length (filter ?P (mobileMessages s)), s\<lparr> mobileMessages := ?ms' \<rparr>)"
    by (rule deliver_eq)
  let ?s' = "s\<lparr> mobileMessages := ?ms' \<rparr>"
  have c2: "length (mobileMessages ?s') = length (mobileMessages s)" by simp
  have c3: "\<forall>k < length (mobileMessages s).
            (if inviteId (mobileMessages s ! k) = Some iid \<and> deliveryStatus (mobileMessages s ! k) = Queued
             then attendeeId (mobileMessages ?s' ! k) = Some aid
                  \<and> deliveryStatus (mobileMessages ?s' ! k) = Delivered
                  \<and> deliveredAt (mobileMessages ?s' ! k) = Some now
                  \<and> mobileMessages ?s' ! k =
                      (mobileMessages s ! k)\<lparr> attendeeId := Some aid, deliveryStatus := Delivered,
                         deliveredAt := Some now, updatedAt := updatedAt (mobileMessages ?s' ! k) \<rparr>
             else mobileMessages ?s' ! k = mobileMessages s ! k)"
    by (simp add: touch_def promote_def)
  have c4: "attendees ?s' = attendees s" by simp
  have c5: "invites ?s' = invites s" by simp
  have c6: "length (filter ?P (mobileMessages s)) = 0 \<longrightarrow> ?s' = s"
  proof
    assume "length (filter ?P (mobileMessages s)) = 0"
    then have "\<forall>m \<in> set (mobileMessages s). \<not> ?P m" by (simp add: filter_empty_conv)
    then have "?ms' = mobileMessages s" by (intro map_idI) auto
    then show "?s' = s" by simp
  qed
  show ?thesis
    by (simp only: e sum.case prod.case) (intro conjI refl c2 c3 c4 c5 c6)
qed

theorem deliverQueuedMessages_promotes_witness:
  "deliverQueuedMessages sch0 100 store0 ''i2'' ''a3'' =
     Inr (1, store0\<lparr> mobileMessages :=
                [m1, m2\<lparr> attendeeId := Some ''a3'', deliveryStatus := Delivered,
                         deliveredAt := Some 100, updatedAt := 100 \<rparr>, m3] \<rparr>)
   \<and> deliverQueuedMessages sch0 100 store0 ''i1'' ''a2'' = Inr (0, store0)"
  using deliverQueuedMessages_promotes[where sch = sch0 and now = 100 and s = store0
          and iid = "''i2''" and aid = "''a3''"]
  by (simp add: sample_defs deliverQueuedMessages_def findMany_messages_def queued_for_def
        mobileMessage_updateMany_def touch_def promote_def)

text \<open>
  Claim C6. Two calls of deliverQueuedMessages in sequence for the same invite: the first
  returns some count, the second returns 0 without an error and leaves the store as the
  first call left it.
\<close>

theorem deliverQueuedMessages_twice:
  "case deliverQueuedMessages sch now s iid aid of
     Inl e \<Rightarrow> False
   | Inr (n, s1) \<Rightarrow> deliverQueuedMessages sch now' s1 iid aid' = Inr (0, s1)"
proof -
  let ?P = "\<lambda>m. inviteId m = Some iid \<and> deliveryStatus m = Queued"
  let ?s1 = "s\<lparr> mobileMessages :=
                 map (\<lambda>m. if ?P m then touch sch now (promote now aid m) else m) (mobileMessages s) \<rparr>"
  have one: "deliverQueuedMessages sch now s iid aid =
               Inr (length (filter ?P (mobileMessages s)), ?s1)"
    by (rule deliver_eq)
  have "\<forall>m \<in> set (mobileMessages ?s1). \<not> ?P m"
    by (auto simp: touch_def promote_def)
  then have two: "deliverQueuedMessages sch now' ?s1 iid aid' = Inr (0, ?s1)"
    by (rule deliver_none)
  show ?thesis
    by (simp only: one two sum.case prod.case)
qed

theorem deliverQueuedMessages_twice_witness:
  "map_sum id fst (deliverQueuedMessages sch0 100 store0 ''i2'' ''a3'') = Inr 1
   \<and> (case deliverQueuedMessages sch0 100 store0 ''i2'' ''a3'' of
        Inl e \<Rightarrow> False
      | Inr (n, s1) \<Rightarrow> deliverQueuedMessages sch0 200 s1 ''i2'' ''a3'' = Inr (0, s1))"
proof -
  have "map_sum id fst (deliverQueuedMessages sch0 100 store0 ''i2'' ''a3'') = Inr 1"
    by (simp add: sample_defs deliverQueuedMessages_def findMany_messages_def queued_for_def
        mobileMessage_updateMany_def)
  with deliverQueuedMessages_twice[where sch = sch0 and now = 100 and s = store0
          and iid = "''i2''" and aid = "''a3''" and now' = 200 and aid' = "''a3''"]
  show ?thesis by blast
qed

text \<open>
  Claim C7. With e-mails unique among the attendees of an event (the compound key
  \<^verbatim>\<open>eventId_email\<close>), an attendee of the event is a delivery target of an \<open>accepted\<close>
  broadcast if and only if an invite of the event with the attendee's e-mail has status
  \<open>accepted\<close> or the attendee's own acceptedAt is set; the delivered messages of the
  broadcast are those of the targets.
\<close>

theorem accepted_audience_is_union:
  assumes na: "\<not> truthy (data_attendeeId data)" and ni: "\<not> truthy (data_inviteId data)"
    and st: "data_status data = Some ''sent'' \<or> data_status data = None"
    and au: "data_audience data = Some ''accepted''"
    and uniq: "\<forall>x \<in> set (attendees s). \<forall>y \<in> set (attendees s).
                   att_eventId x = att_eventId y \<and> att_email x = att_email y \<longrightarrow> x = y"
    and a: "a \<in> set (attendees s)" and e: "att_eventId a = eid"
  shows "\<exists>r s'. createMessage sch now s eid data = Inr (r, s')
           \<and> map attendeeId (filter (\<lambda>m. deliveryStatus m = Delivered) (created s s'))
               = map (\<lambda>x. Some (att_id x))
                   (acceptedAttendees s eid (filter (\<lambda>x. att_eventId x = eid) (attendees s)))
           \<and> (a \<in> set (acceptedAttendees s eid (filter (\<lambda>x. att_eventId x = eid) (attendees s)))
                \<longleftrightarrow> ((\<exists>i \<in> set (invites s). inv_eventId i = eid \<and> inv_email i = att_email a
                                       \<and> inv_status i = ''accepted'')
                     \<or> att_acceptedAt a \<noteq> None))"
proof -
  have au': "data_audience data \<noteq> Some ''invited''" using au by simp
  from createMessage_fanout[OF na ni st au', of sch now s eid] au
  obtain r s' where r: "createMessage sch now s eid data = Inr (r, s')"
    and f: "map recipient (created s s') =
               map (\<lambda>a. (Some (att_id a), None, Delivered, Some now))
                 (acceptedAttendees s eid (filter (\<lambda>a. att_eventId a = eid) (attendees s)))
               @ map (\<lambda>i. (None, Some (inv_id i), Queued, None))
                   (filter (\<lambda>i. inv_eventId i = eid) (invites s))"
    by auto
  from delivered_part(1)[OF f] r acceptedAttendees_member[OF uniq a e]
  show ?thesis by blast
qed

theorem accepted_audience_is_union_witness:
  "acceptedAttendees store0 ''e1'' (filter (\<lambda>x. att_eventId x = ''e1'') (attendees store0)) = [ann, bob]
   \<and> att_acceptedAt ann = Some 5 \<and> att_acceptedAt bob = None \<and> att_acceptedAt dan = None
   \<and> (\<exists>r s'. createMessage sch0 100 store0 ''e1'' (broadcast_payload (Some ''accepted'')) = Inr (r, s')
         \<and> map attendeeId (filter (\<lambda>m. deliveryStatus m = Delivered) (created store0 s'))
             = [Some ''a1'', Some ''a2''])"
proof -
  let ?d = "broadcast_payload (Some ''accepted'')"
  have h: "\<not> truthy (data_attendeeId ?d)" "\<not> truthy (data_inviteId ?d)"
    "data_status ?d = Some ''sent'' \<or> data_status ?d = None" "data_audience ?d = Some ''accepted''"
    by (simp_all add: broadcast_payload_def truthy_def)
  have u: "\<forall>x \<in> set (attendees store0). \<forall>y \<in> set (attendees store0).
             att_eventId x = att_eventId y \<and> att_email x = att_email y \<longrightarrow> x = y"
    by (simp add: sample_defs)
  have a: "ann \<in> set (attendees store0)" "att_eventId ann = ''e1''"
    by (simp_all add: sample_defs)
  have t: "acceptedAttendees store0 ''e1'' (filter (\<lambda>x. att_eventId x = ''e1'') (attendees store0)) = [ann, bob]"
    by (simp add: sample_defs acceptedAttendees_def Let_def)
  have f: "att_acceptedAt ann = Some 5 \<and> att_acceptedAt bob = None \<and> att_acceptedAt dan = None"
    by (simp add: sample_defs)
  from accepted_audience_is_union[OF h u a, where sch = sch0 and now = 100]
  obtain r s' where "createMessage sch0 100 store0 ''e1'' ?d = Inr (r, s')"
    and "map attendeeId (filter (\<lambda>m. deliveryStatus m = Delivered) (created store0 s'))
           = map (\<lambda>x. Some (att_id x))
               (acceptedAttendees store0 ''e1'' (filter (\<lambda>x. att_eventId x = ''e1'') (attendees store0)))"
    by blast
  then have "\<exists>r s'. createMessage sch0 100 store0 ''e1'' ?d = Inr (r, s')
         \<and> map attendeeId (filter (\<lambda>m. deliveryStatus m = Delivered) (created store0 s'))
             = [Some ''a1'', Some ''a2'']"
    unfolding t by (simp add: ann_def bob_def)
  with t f show ?thesis by blast
qed

text \<open>
  Claim C8. The read of a single message on the recipient-facing route does not look at
  the delivery state: a queued message of the event is returned by its id.
\<close>

theorem getMobileMessage_returns_queued:
  assumes "distinct (map msg_id (mobileMessages s))"
    and "m \<in> set (mobileMessages s)" and "deliveryStatus m = Queued"
  shows "getMobileMessage s (eventId m) (msg_id m) = Inr (mapMessageToDto m)
         \<and> controller_getMobileMessage s (eventId m) (msg_id m) att = Inr (mapMessageToDto m)"
proof -
  have "find (\<lambda>x. msg_id x = msg_id m \<and> eventId x = eventId m) (mobileMessages s) = Some m"
    using assms(1,2) by (rule find_by_id) simp
  then show ?thesis
    by (simp add: getMobileMessage_def controller_getMobileMessage_def findFirst_message_def)
qed

theorem getMobileMessage_returns_queued_witness:
  "deliveryStatus m2 = Queued
   \<and> getMobileMessage store0 (eventId m2) (msg_id m2) = Inr (mapMessageToDto m2)
   \<and> controller_getMobileMessage store0 (eventId m2) (msg_id m2) dan = Inr (mapMessageToDto m2)"
proof -
  have h: "distinct (map msg_id (mobileMessages store0))" "m2 \<in> set (mobileMessages store0)"
    "deliveryStatus m2 = Queued"
    by (simp_all add: sample_defs)
  from getMobileMessage_returns_queued[OF h, where att = dan] h(3) show ?thesis by simp
qed

text \<open>
  Claim C9. The admin listing getMessages returns every message of the event, whatever its
  delivery state or recipient, ordered by creation time, newest first.
\<close>

theorem getMessages_every_state:
  "mset (getMessages s eid) = filter_mset (\<lambda>m. eventId m = eid) (mset (mobileMessages s))
   \<and> sorted_wrt (\<lambda>a b. createdAt a \<ge> createdAt b) (getMessages s eid)"
  by (simp add: getMessages_def findMany_messages_def orderBy_mset orderBy_sorted)

text \<open>
  Claim C10. acknowledgeMessage raises NotFound exactly when no message has the given id.
  Otherwise it clears the unread flag of that message and leaves its other columns (apart
  from the store-maintained updatedAt), every other message and the other tables
  unchanged. The controller passes the id alone, so the event of the route plays no part.
\<close>

theorem acknowledgeMessage_frame:
  "(acknowledgeMessage sch now s i = Inl (NotFoundException ''Message not found'')
      \<longleftrightarrow> (\<forall>m \<in> set (mobileMessages s). msg_id m \<noteq> i))
   \<and> ((\<exists>m \<in> set (mobileMessages s). msg_id m = i) \<longrightarrow>
        (\<exists>s'. acknowledgeMessage sch now s i = Inr (True, s')
           \<and> length (mobileMessages s') = length (mobileMessages s)
           \<and> (\<forall>k < length (mobileMessages s).
                 if msg_id (mobileMessages s ! k) = i
                 then unread (mobileMessages s' ! k) = False
                      \<and> mobileMessages s' ! k =
                          (mobileMessages s ! k)\<lparr> unread := False,
                             updatedAt := updatedAt (mobileMessages s' ! k) \<rparr>
                 else mobileMessages s' ! k = mobileMessages s ! k)
           \<and> attendees s' = attendees s \<and> invites s' = invites s
           \<and> broadcasts s' = broadcasts s))
   \<and> controller_acknowledgeMessage sch now s routeEventId i att = acknowledgeMessage sch now s i"
proof -
  let ?s' = "mobileMessage_update sch now i (\<lambda>m. m\<lparr> unread := False \<rparr>) s"
  have none: "find (\<lambda>m. msg_id m = i) (mobileMessages s) = None
              \<longleftrightarrow> (\<forall>m \<in> set (mobileMessages s). msg_id m \<noteq> i)"
    by (auto simp: find_None_iff)
  have p1: "acknowledgeMessage sch now s i = Inl (NotFoundException ''Message not found'')
      \<longleftrightarrow> (\<forall>m \<in> set (mobileMessages s). msg_id m \<noteq> i)"
  proof (cases "find (\<lambda>m. msg_id m = i) (mobileMessages s)")
    case None
    with none show ?thesis
      by (simp add: acknowledgeMessage_def findFirst_message_def)
  next
    case (Some x)
    with none have "\<not> (\<forall>m \<in> set (mobileMessages s). msg_id m \<noteq> i)" by simp
    with Some show ?thesis
      by (simp add: acknowledgeMessage_def findFirst_message_def)
  qed
  have frame: "length (mobileMessages ?s') = length (mobileMessages s)
           \<and> (\<forall>k < length (mobileMessages s).
                 if msg_id (mobileMessages s ! k) = i
                 then unread (mobileMessages ?s' ! k) = False
                      \<and> mobileMessages ?s' ! k =
                          (mobileMessages s ! k)\<lparr> unread := False,
                             updatedAt := updatedAt (mobileMessages ?s' ! k) \<rparr>
                 else mobileMessages ?s' ! k = mobileMessages s ! k)
           \<and> attendees ?s' = attendees s \<and> invites ?s' = invites s
           \<and> broadcasts ?s' = broadcasts s"
    by (simp add: mobileMessage_update_def touch_def)
  have p2: "(\<exists>m \<in> set (mobileMessages s). msg_id m = i) \<longrightarrow>
        acknowledgeMessage sch now s i = Inr (True, ?s')"
  proof
    assume "\<exists>m \<in> set (mobileMessages s). msg_id m = i"
    with none obtain x where "find (\<lambda>m. msg_id m = i) (mobileMessages s) = Some x"
      by (cases "find (\<lambda>m. msg_id m = i) (mobileMessages s)") auto
    then show "acknowledgeMessage sch now s i = Inr (True, ?s')"
      by (simp add: acknowledgeMessage_def findFirst_message_def)
  qed
  have p3: "controller_acknowledgeMessage sch now s routeEventId i att = acknowledgeMessage sch now s i"
    by (simp add: controller_acknowledgeMessage_def)
  from p1 p2 p3 frame show ?thesis by blast
qed

theorem acknowledgeMessage_frame_witness:
  "acknowledgeMessage sch0 100 store0 ''m1'' =
     Inr (True, store0\<lparr> mobileMessages := [m1\<lparr> unread := False, updatedAt := 100 \<rparr>, m2, m3] \<rparr>)
   \<and> acknowledgeMessage sch0 100 store0 ''m9'' = Inl (NotFoundException ''Message not found'')
   \<and> controller_acknowledgeMessage sch0 100 store0 ''e7'' ''m1'' dan =
       acknowledgeMessage sch0 100 store0 ''m1''"
  using acknowledgeMessage_frame[where sch = sch0 and now = 100 and s = store0
          and i = "''m1''" and routeEventId = "''e7''" and att = dan]
  by (simp add: sample_defs acknowledgeMessage_def findFirst_message_def
        mobileMessage_update_def touch_def controller_acknowledgeMessage_def)

end
